theory Spec2Isabelle
  imports Complex_Main "HOL-Library.Sublist"
begin

section \<open>Data model\<close>

text \<open>
  The detectors of \<^verbatim>\<open>hits/hitdetector.py\<close> work on pandas data frames with the columns
  \<^verbatim>\<open>obmt\<close>, \<^verbatim>\<open>rate\<close> and \<^verbatim>\<open>w1_rate\<close>, to which they add the derived columns
  \<^verbatim>\<open>grad\<close>, \<^verbatim>\<open>anomaly\<close> and \<^verbatim>\<open>hits\<close>. A frame is modelled row by row: every row carries
  its index label (\<open>idx\<close>, the pandas index, which sorting does not renumber) and the
  derived columns are optional fields, \<open>None\<close> while the column does not exist.

  Python floats are idealised as the reals: \<open>abs\<close>, \<open>-\<close>, \<open>*\<close>, \<open>/\<close>, \<open>floor\<close> and the
  comparisons are the exact ones, so rounding, infinities and NaN are outside the model.
\<close>

datatype py_error = IndexError | KeyError | ValueError

record sample =
  idx :: int
  obmt :: real
  rate :: real
  w1_rate :: real
  grad :: "real option"
  anomaly :: "bool option"
  hits :: "bool option"

type_synonym frame = "sample list"

text \<open>
  The event frame \<^verbatim>\<open>anomaly_df\<close> has a single column \<^verbatim>\<open>obmt\<close> and an index: a list of
  (label, quantised time) pairs.
\<close>

type_synonym events = "(int \<times> real) list"

section \<open>Library operations used by the detectors\<close>

text \<open>\<^verbatim>\<open>np.diff(a)\<close>: the differences of neighbours, one element shorter than \<open>a\<close>.\<close>

fun np_diff :: "real list \<Rightarrow> real list" where
  "np_diff (x # y # zs) = (y - x) # np_diff (y # zs)"
| "np_diff [x] = []"
| "np_diff [] = []"

text \<open>
  \<^verbatim>\<open>anomaly_df.drop_duplicates(subset='obmt')\<close>: rows whose \<^verbatim>\<open>obmt\<close> value has been seen
  before are dropped, the first row of each value stays (pandas' default
  \<^verbatim>\<open>keep='first'\<close>).
\<close>

fun drop_duplicates_from :: "real list \<Rightarrow> events \<Rightarrow> events" where
  "drop_duplicates_from seen [] = []"
| "drop_duplicates_from seen (e # es) =
     (if snd e \<in> set seen then drop_duplicates_from seen es
      else e # drop_duplicates_from (snd e # seen) es)"

definition drop_duplicates :: "events \<Rightarrow> events" where
  "drop_duplicates es = drop_duplicates_from [] es"

text \<open>\<^verbatim>\<open>np.floor(times*k)/k\<close>, with \<open>k = 10\<close> or \<open>k = 20\<close>.\<close>

definition quantise :: "real \<Rightarrow> real \<Rightarrow> real" where
  "quantise k x = of_int \<lfloor>x * k\<rfloor> / k"

text \<open>\<^verbatim>\<open>df.sort_values('obmt')\<close>: the rows in ascending order of \<^verbatim>\<open>obmt\<close>, labels kept.\<close>

definition sort_values :: "frame \<Rightarrow> frame" where
  "sort_values df = sort_key obmt df"

text \<open>
  Modelled from the spec: the decorator \<^verbatim>\<open>sort_data\<close> of \<^verbatim>\<open>hits.misc\<close> is not among the
  sources. The spec says that the series is sorted ascending by \<^verbatim>\<open>obmt\<close> at the pipeline
  boundary, before processing: the decorated function receives the sorted frame.
\<close>

definition sort_data :: "(frame \<Rightarrow> 'a) \<Rightarrow> frame \<Rightarrow> 'a" where
  "sort_data func df = func (sort_values df)"

section \<open>The threshold detector\<close>

text \<open>
  \<^verbatim>\<open>identify_anomaly\<close>, lines 67 to 84. The selections
  \<^verbatim>\<open>working_df['obmt'][working_df['anomaly'] == True]\<close> and
  \<^verbatim>\<open>working_df.index[working_df['anomaly'] == True]\<close> are the \<^verbatim>\<open>obmt\<close> values and the
  labels of the flagged rows, in frame order.
\<close>

definition flagged :: "frame \<Rightarrow> frame" where
  "flagged working_df = filter (\<lambda>r. anomaly r = Some True) working_df"

definition identify_anomaly_body :: "frame \<Rightarrow> real \<Rightarrow> frame \<times> events" where
  "identify_anomaly_body df anomaly_threshold =
     (let working_df =
            map (\<lambda>r. r\<lparr>anomaly := Some (\<bar>rate r - w1_rate r\<bar> \<ge> anomaly_threshold)\<rparr>) df;
          times = map obmt (flagged working_df);
          indices = map idx (flagged working_df);
          anomaly_df = zip indices (map (quantise 10) times)
      in (working_df, drop_duplicates anomaly_df))"

definition identify_anomaly :: "frame \<Rightarrow> real \<Rightarrow> frame \<times> events" where
  "identify_anomaly df anomaly_threshold =
     sort_data (\<lambda>d. identify_anomaly_body d anomaly_threshold) df"

section \<open>The smoothing filter\<close>

text \<open>
  \<^verbatim>\<open>LowPassData\<close> of \<^verbatim>\<open>hits/noiseremoval/lowpass.py\<close>. The fields are the attributes
  \<^verbatim>\<open>self._obmt\<close>, \<^verbatim>\<open>self._dt\<close>, \<^verbatim>\<open>self._cutoff\<close> and \<^verbatim>\<open>self._alpha\<close>.

  Modelled from the spec: the base class \<^verbatim>\<open>FilterData\<close> of \<^verbatim>\<open>hits.noiseremoval.filters\<close> is
  not among the sources. Of its state the model keeps the timestamps \<^verbatim>\<open>self._obmt\<close>
  (\<open>None\<close> when the filter holds no timestamps, as the test in \<^verbatim>\<open>__init__\<close> expects) and
  the filter's running output value, which the spec says \<^verbatim>\<open>reset\<close> clears.
\<close>

record LowPassData =
  self_obmt :: "real list option"
  self_running :: "real option"
  self_dt :: real
  self_cutoff :: real
  self_alpha :: real

text \<open>\<^verbatim>\<open>a[i]\<close> for an index \<open>i \<ge> 0\<close>: out of range it raises \<^verbatim>\<open>IndexError\<close>.\<close>

definition getitem :: "real list \<Rightarrow> nat \<Rightarrow> py_error + real" where
  "getitem a i = (if i < length a then Inr (a ! i) else Inl IndexError)"

text \<open>
  Modelled from the spec: \<^verbatim>\<open>FilterData.reset\<close> is not among the sources; the spec says
  that the running state is reset, with no carry-over of prior filter output.
\<close>

definition reset :: "LowPassData \<Rightarrow> LowPassData" where
  "reset self = self\<lparr>self_running := None\<rparr>"

text \<open>
  \<^verbatim>\<open>LowPassData.__init__\<close>, lines 29 to 40. The argument is the value of \<^verbatim>\<open>self._obmt\<close>
  that \<^verbatim>\<open>FilterData.__init__\<close> has set. The subtraction reads \<^verbatim>\<open>self._obmt[1]\<close> first.
\<close>

definition LowPassData_init :: "real list option \<Rightarrow> py_error + LowPassData" where
  "LowPassData_init obmt_arg =
     (case (case obmt_arg of
              Some a \<Rightarrow>
                (case getitem a 1 of
                   Inl e \<Rightarrow> Inl e
                 | Inr a1 \<Rightarrow>
                     (case getitem a 0 of
                        Inl e \<Rightarrow> Inl e
                      | Inr a0 \<Rightarrow> Inr ((a1 - a0) * 21600)))
            | None \<Rightarrow> Inr 1) of
        Inl e \<Rightarrow> Inl e
      | Inr d \<Rightarrow>
          Inr \<lparr>self_obmt = obmt_arg, self_running = None, self_dt = d, self_cutoff = 0.05,
               self_alpha = (2 * pi * d * 0.05) / (2 * pi * d * 0.05 + 1)\<rparr>)"

text \<open>\<^verbatim>\<open>LowPassData.tweak_cutoff\<close>, lines 44 to 48.\<close>

definition tweak_cutoff :: "LowPassData \<Rightarrow> real \<Rightarrow> LowPassData" where
  "tweak_cutoff self cutoff =
     reset (self\<lparr>self_cutoff := cutoff, self_alpha := 1 - exp (-1 * self_dt self * cutoff)\<rparr>)"

text \<open>
  \<^verbatim>\<open>LowPassData._low_pass\<close>, lines 52 to 64, a generator. The model returns the values
  it yields when it is consumed to its end, with the exception that ends it, if any
  (\<open>None\<close>: it returns normally). The loop \<^verbatim>\<open>while True\<close> leaves through \<^verbatim>\<open>break\<close> when
  \<^verbatim>\<open>data_array[i]\<close> raises \<^verbatim>\<open>IndexError\<close>; it ends, since \<open>i\<close> grows up to the length.
\<close>

function low_pass_loop :: "real \<Rightarrow> real list \<Rightarrow> real \<Rightarrow> nat \<Rightarrow> real list \<times> py_error option" where
  "low_pass_loop alpha data_array x i =
     (case getitem data_array i of
        Inl e \<Rightarrow> (if e = IndexError then ([], None) else ([], Some e))
      | Inr d \<Rightarrow>
          (let x' = x + alpha * (d - x);
               (ys, r) = low_pass_loop alpha data_array x' (i + 1)
           in (x' # ys, r)))"
  by pat_completeness auto
termination
  by (relation "measure (\<lambda>(alpha, data_array, x, i). length data_array - i)")
     (auto simp: getitem_def split: if_splits)

declare low_pass_loop.simps [simp del]

definition low_pass :: "LowPassData \<Rightarrow> real list \<Rightarrow> real option \<Rightarrow> real list \<times> py_error option" where
  "low_pass self data_array alpha_arg =
     (let alpha = (case alpha_arg of None \<Rightarrow> self_alpha self | Some a \<Rightarrow> a) in
      case getitem data_array 0 of
        Inl e \<Rightarrow> ([], Some e)
      | Inr x \<Rightarrow> low_pass_loop alpha data_array x 0)"

section \<open>The warning of the compiled threshold detector\<close>




section \<open>The gradient detector\<close>

text \<open>
  \<^verbatim>\<open>abs\<close> of a boolean column: line 133 applies \<^verbatim>\<open>abs\<close> to the result of the comparison
  \<^verbatim>\<open>working_df['grad'] >= gradient_threshold\<close>, which leaves the truth values as they are.
\<close>

definition abs_bool :: "bool \<Rightarrow> bool" where
  "abs_bool b = b"

text \<open>
  \<^verbatim>\<open>identify_through_gradient\<close>, lines 127 to 145. For a frame with rows the list
  \<^verbatim>\<open>[0,*np.diff(...)]\<close> has one element for each row and becomes the column \<^verbatim>\<open>grad\<close>.
  Assigned to the empty frame, the list \<^verbatim>\<open>[0]\<close> makes pandas grow the frame to one row
  whose telemetry columns are NaN; the function then returns normally, with a frame
  that the real-valued model cannot hold. The model says so: \<open>Inl NaN_row\<close>.
\<close>

datatype unrepresented = NaN_row

definition identify_through_gradient_body ::
    "frame \<Rightarrow> real \<Rightarrow> unrepresented + frame \<times> events" where
  "identify_through_gradient_body df gradient_threshold =
     (let working_df = sort_values df;
          g = 0 # np_diff (map (\<lambda>r. rate r - w1_rate r) working_df)
      in if working_df = [] then Inl NaN_row
         else
           (let working_df = map (\<lambda>(r, d). r\<lparr>grad := Some d\<rparr>) (zip working_df g);
                working_df =
                  map (\<lambda>r. r\<lparr>anomaly :=
                         map_option (\<lambda>d. abs_bool (d \<ge> gradient_threshold)) (grad r)\<rparr>)
                    working_df;
                times = map obmt (flagged working_df);
                indices = map idx (flagged working_df);
                anomaly_df = zip indices (map (quantise 20) times)
            in Inr (working_df, drop_duplicates anomaly_df)))"

definition identify_through_gradient ::
    "frame \<Rightarrow> real \<Rightarrow> unrepresented + frame \<times> events" where
  "identify_through_gradient df gradient_threshold =
     sort_data (\<lambda>d. identify_through_gradient_body d gradient_threshold) df"

section \<open>The noise classifier\<close>

text \<open>
  \<^verbatim>\<open>working_df.loc[t.index]\<close>: for each label in turn the rows that carry it;
  \<^verbatim>\<open>KeyError\<close> when a label is not in the frame.
\<close>

definition loc_rows :: "frame \<Rightarrow> int list \<Rightarrow> py_error + frame" where
  "loc_rows df labels =
     (if \<exists>l \<in> set labels. l \<notin> set (map idx df) then Inl KeyError
      else Inr (concat (map (\<lambda>l. filter (\<lambda>r. idx r = l) df) labels)))"

text \<open>
  \<^verbatim>\<open>identify_noise\<close>, lines 215 to 251: what the function does with the annotated frame
  \<open>data\<close> and the events \<open>t\<close> that \<^verbatim>\<open>identify_anomaly\<close> has returned. The lists given to
  \<^verbatim>\<open>pd.DataFrame\<close> as the columns \<^verbatim>\<open>diff\<close> and \<^verbatim>\<open>diff_diff\<close> must have the length of the
  index \<^verbatim>\<open>t.index\<close>, else \<^verbatim>\<open>ValueError\<close>. In line 248,
  \<^verbatim>\<open>hit_data.loc[index]['hits'] if index in hit_data.index else False\<close> is the lookup of
  the label in \<open>hit_data\<close> with the default \<open>False\<close>, when the labels of the events are
  distinct. When a label occurs twice in \<^verbatim>\<open>t.index\<close>, \<^verbatim>\<open>hit_data.loc[index]['hits']\<close> is a
  column of several values, the list is no column of truth values, and line 248 raises
  \<^verbatim>\<open>ValueError\<close>.
\<close>

definition identify_noise_classify :: "frame \<Rightarrow> events \<Rightarrow> py_error + frame \<times> events" where
  "identify_noise_classify data t =
     (if length t < 3 then
        (let working_df = map (\<lambda>r. r\<lparr>hits := anomaly r\<rparr>) data in
         case loc_rows working_df (map fst t) of
           Inl e \<Rightarrow> Inl e
         | Inr hit_df \<Rightarrow> Inr (hit_df, t))
      else
        (let differences = np_diff (map snd t);
             differences2 = np_diff differences;
             diff_col = 1 # differences;
             diff_diff_col = 1 # 1 # differences2
         in if length diff_col \<noteq> length t \<or> length diff_diff_col \<noteq> length t
            then Inl ValueError
            else
              (let hit_data =
                     zip (map fst t)
                       (map (\<lambda>d. if d < 0.5 then False else True) diff_diff_col)
               in if \<not> distinct (map fst t) then Inl ValueError
                  else
                    (let working_df =
                           map (\<lambda>r. r\<lparr>hits :=
                                  Some (case map_of hit_data (idx r) of
                                          Some h \<Rightarrow> h
                                        | None \<Rightarrow> False)\<rparr>)
                             data
                     in Inr (working_df, t)))))"

text \<open>
  \<^verbatim>\<open>identify_noise\<close>, line 208 and the rest; \<^verbatim>\<open>identify_anomaly\<close> is called with its
  default threshold 2.
\<close>

definition identify_noise_body :: "frame \<Rightarrow> py_error + frame \<times> events" where
  "identify_noise_body df =
     (let (data, t) = identify_anomaly df 2 in identify_noise_classify data t)"

definition identify_noise :: "frame \<Rightarrow> py_error + frame \<times> events" where
  "identify_noise df = sort_data identify_noise_body df"


section \<open>The detectors on frame objects\<close>

text \<open>
  A pandas frame is a mutable object, and \<^verbatim>\<open>working_df['anomaly'] = ...\<close> changes the
  object that \<^verbatim>\<open>working_df\<close> names. For the frame effects the detectors are modelled a
  second time over a store of frame objects: the store is the list of the objects
  created so far and an address is a position in it. \<^verbatim>\<open>df.copy()\<close> and
  \<^verbatim>\<open>df.sort_values('obmt')\<close> create a new object, the assignment of a column replaces
  the content of an existing one. The event frames are new objects built from arrays
  and are returned as values. Each function returns the store it leaves behind.
\<close>

type_synonym store = "frame list"

definition df_sort_values :: "store \<Rightarrow> nat \<Rightarrow> store \<times> nat" where
  "df_sort_values s a = (s @ [sort_values (s ! a)], length s)"

definition df_copy :: "store \<Rightarrow> nat \<Rightarrow> store \<times> nat" where
  "df_copy s a = (s @ [s ! a], length s)"

text \<open>
  The bodies of the detectors, lines 67 to 84 and 127 to 145: \<open>df\<close> is the address of
  the frame object that the body is given as its argument.
\<close>

definition identify_anomaly_body_obj :: "store \<Rightarrow> nat \<Rightarrow> real \<Rightarrow> store \<times> nat \<times> events" where
  "identify_anomaly_body_obj s df anomaly_threshold =
     (let (s, working_df) = df_copy s df;
          s = s[working_df :=
                  map (\<lambda>r. r\<lparr>anomaly := Some (\<bar>rate r - w1_rate r\<bar> \<ge> anomaly_threshold)\<rparr>)
                    (s ! working_df)];
          times = map obmt (flagged (s ! working_df));
          indices = map idx (flagged (s ! working_df));
          anomaly_df = zip indices (map (quantise 10) times)
      in (s, working_df, drop_duplicates anomaly_df))"

text \<open>
  For the empty frame the object \<open>working_df\<close> grows to a row of NaN, which the store
  cannot hold: the model leaves its content empty and returns \<open>Inl NaN_row\<close>.
\<close>

definition identify_through_gradient_body_obj ::
    "store \<Rightarrow> nat \<Rightarrow> real \<Rightarrow> store \<times> (unrepresented + nat \<times> events)" where
  "identify_through_gradient_body_obj s df gradient_threshold =
     (let (s, working_df) = df_copy s df;
          (s, working_df) = df_sort_values s working_df;
          g = 0 # np_diff (map (\<lambda>r. rate r - w1_rate r) (s ! working_df))
      in if s ! working_df = [] then (s, Inl NaN_row)
         else
           (let s = s[working_df :=
                        map (\<lambda>(r, d). r\<lparr>grad := Some d\<rparr>) (zip (s ! working_df) g)];
                s = s[working_df :=
                        map (\<lambda>r. r\<lparr>anomaly :=
                               map_option (\<lambda>d. abs_bool (d \<ge> gradient_threshold)) (grad r)\<rparr>)
                          (s ! working_df)];
                times = map obmt (flagged (s ! working_df));
                indices = map idx (flagged (s ! working_df));
                anomaly_df = zip indices (map (quantise 20) times)
            in (s, Inr (working_df, drop_duplicates anomaly_df))))"

text \<open>
  The decorator \<^verbatim>\<open>sort_data\<close> of \<^verbatim>\<open>hits.misc\<close> is not among the sources, and nothing says
  which object it hands to the function: the caller's own frame or a new one. On
  objects it is therefore a parameter \<open>dec\<close>, which takes the store and the address of
  the caller's frame and gives the store it leaves and the address it hands on.
\<close>

definition sort_data_obj ::
    "(store \<Rightarrow> nat \<Rightarrow> store \<times> nat) \<Rightarrow> (store \<Rightarrow> nat \<Rightarrow> 'a) \<Rightarrow> store \<Rightarrow> nat \<Rightarrow> 'a" where
  "sort_data_obj dec func s df = (let (s, d) = dec s df in func s d)"

definition identify_anomaly_obj ::
    "(store \<Rightarrow> nat \<Rightarrow> store \<times> nat) \<Rightarrow> store \<Rightarrow> nat \<Rightarrow> real \<Rightarrow> store \<times> nat \<times> events" where
  "identify_anomaly_obj dec s df anomaly_threshold =
     sort_data_obj dec (\<lambda>s d. identify_anomaly_body_obj s d anomaly_threshold) s df"

definition identify_through_gradient_obj ::
    "(store \<Rightarrow> nat \<Rightarrow> store \<times> nat) \<Rightarrow> store \<Rightarrow> nat \<Rightarrow> real \<Rightarrow>
     store \<times> (unrepresented + nat \<times> events)" where
  "identify_through_gradient_obj dec s df gradient_threshold =
     sort_data_obj dec (\<lambda>s d. identify_through_gradient_body_obj s d gradient_threshold) s df"

text \<open>\<^verbatim>\<open>identify_noise\<close>, lines 208 to 251, on objects.\<close>

definition identify_noise_body_obj ::
    "(store \<Rightarrow> nat \<Rightarrow> store \<times> nat) \<Rightarrow> store \<Rightarrow> nat \<Rightarrow> store \<times> (py_error + nat \<times> events)" where
  "identify_noise_body_obj dec s df =
     (let (s, data, t) = identify_anomaly_obj dec s df 2
      in if length t < 3 then
           (let (s, working_df) = df_copy s data;
                s = s[working_df := map (\<lambda>r. r\<lparr>hits := anomaly r\<rparr>) (s ! working_df)]
            in case loc_rows (s ! working_df) (map fst t) of
                 Inl e \<Rightarrow> (s, Inl e)
               | Inr hit_df \<Rightarrow> (s @ [hit_df], Inr (length s, t)))
         else
           (let differences = np_diff (map snd t);
                differences2 = np_diff differences;
                diff_col = 1 # differences;
                diff_diff_col = 1 # 1 # differences2
            in if length diff_col \<noteq> length t \<or> length diff_diff_col \<noteq> length t
               then (s, Inl ValueError)
               else
                 (let hit_data =
                        zip (map fst t)
                          (map (\<lambda>d. if d < 0.5 then False else True) diff_diff_col);
                      (s, working_df) = df_copy s data
                  in if \<not> distinct (map fst t) then (s, Inl ValueError)
                     else
                       (let s = s[working_df :=
                                    map (\<lambda>r. r\<lparr>hits :=
                                           Some (case map_of hit_data (idx r) of
                                                   Some h \<Rightarrow> h
                                                 | None \<Rightarrow> False)\<rparr>)
                                      (s ! working_df)]
                        in (s, Inr (working_df, t))))))"

definition identify_noise_obj ::
    "(store \<Rightarrow> nat \<Rightarrow> store \<times> nat) \<Rightarrow> store \<Rightarrow> nat \<Rightarrow> store \<times> (py_error + nat \<times> events)" where
  "identify_noise_obj dec s df = sort_data_obj dec (identify_noise_body_obj dec) s df"

text \<open>
  What is required of the decorator: it leaves the objects of the store as they are,
  and the object it hands on holds the caller's series sorted by \<^verbatim>\<open>obmt\<close>. That object
  may be the caller's own frame.
\<close>

definition sorts_without_mutation :: "(store \<Rightarrow> nat \<Rightarrow> store \<times> nat) \<Rightarrow> bool" where
  "sorts_without_mutation dec \<longleftrightarrow>
     (\<forall>s a. a < length s \<longrightarrow>
        take (length s) (fst (dec s a)) = s \<and>
        snd (dec s a) < length (fst (dec s a)) \<and>
        fst (dec s a) ! snd (dec s a) = sort_values (s ! a))"

text \<open>
  One such decorator, for the examples: it hands on the caller's own frame when that
  is sorted already, and a new sorted frame otherwise.
\<close>

definition sort_data_alias :: "store \<Rightarrow> nat \<Rightarrow> store \<times> nat" where
  "sort_data_alias s a =
     (if sort_values (s ! a) = s ! a then (s, a) else (s @ [sort_values (s ! a)], length s))"

text \<open>A filter with \<open>alpha = 1 / 2\<close>, for the examples.\<close>

definition lp_half :: LowPassData where
  "lp_half = \<lparr>self_obmt = None, self_running = None, self_dt = 1, self_cutoff = 1, self_alpha = 1 / 2\<rparr>"

text \<open>A row of an input frame: the three telemetry columns, no derived column yet.\<close>

definition mk_sample :: "int \<Rightarrow> real \<Rightarrow> real \<Rightarrow> real \<Rightarrow> sample" where
  "mk_sample i t r w =
     \<lparr>idx = i, obmt = t, rate = r, w1_rate = w, grad = None, anomaly = None, hits = None\<rparr>"

section \<open>Properties of the library operations\<close>

lemma length_np_diff: "length (np_diff xs) = length xs - 1"
  by (induction xs rule: np_diff.induct) simp_all

lemma nth_np_diff: "Suc i < length xs \<Longrightarrow> np_diff xs ! i = xs ! Suc i - xs ! i"
proof (induction xs arbitrary: i rule: np_diff.induct)
  case (1 x y zs)
  then show ?case by (cases i) simp_all
qed simp_all

lemma drop_duplicates_from_values:
  "snd ` set (drop_duplicates_from seen es) = snd ` set es - set seen"
  by (induction es arbitrary: seen) auto

lemma drop_duplicates_from_distinct:
  "distinct (map snd (drop_duplicates_from seen es))"
proof (induction es arbitrary: seen)
  case (Cons e es)
  have "snd e \<notin> snd ` set (drop_duplicates_from (snd e # seen) es)"
    by (simp add: drop_duplicates_from_values)
  with Cons show ?case by simp
qed simp

lemma drop_duplicates_from_subseq: "subseq (drop_duplicates_from seen es) es"
  by (induction es arbitrary: seen) auto

lemma drop_duplicates_from_subset:
  "set (drop_duplicates_from seen es) \<subseteq> set es"
  by (induction es arbitrary: seen) auto

text \<open>
  An event that survives is the first row of its value: the rows before it in the
  selection carry other values.
\<close>

lemma drop_duplicates_from_first:
  "(l, b) \<in> set (drop_duplicates_from seen (map g (filter P xs))) \<Longrightarrow>
   \<exists>pre r post. xs = pre @ r # post \<and> P r \<and> g r = (l, b) \<and> b \<notin> set seen \<and>
     (\<forall>r' \<in> set pre. P r' \<longrightarrow> snd (g r') \<noteq> b)"
proof (induction xs arbitrary: seen)
  case Nil
  then show ?case by simp
next
  case (Cons x xs)
  show ?case
  proof (cases "P x")
    case False
    with Cons.prems have "(l, b) \<in> set (drop_duplicates_from seen (map g (filter P xs)))"
      by simp
    from Cons.IH [OF this] obtain pre r post where
      h: "xs = pre @ r # post" "P r" "g r = (l, b)" "b \<notin> set seen"
         "\<forall>r' \<in> set pre. P r' \<longrightarrow> snd (g r') \<noteq> b"
      by blast
    from h False have "x # xs = (x # pre) @ r # post \<and> P r \<and> g r = (l, b) \<and> b \<notin> set seen \<and>
        (\<forall>r' \<in> set (x # pre). P r' \<longrightarrow> snd (g r') \<noteq> b)"
      by simp
    then show ?thesis by blast
  next
    case True
    show ?thesis
    proof (cases "snd (g x) \<in> set seen")
      case seen: True
      with True Cons.prems
      have "(l, b) \<in> set (drop_duplicates_from seen (map g (filter P xs)))"
        by simp
      from Cons.IH [OF this] obtain pre r post where
        h: "xs = pre @ r # post" "P r" "g r = (l, b)" "b \<notin> set seen"
           "\<forall>r' \<in> set pre. P r' \<longrightarrow> snd (g r') \<noteq> b"
        by blast
      from h seen have "snd (g x) \<noteq> b" by auto
      with h have "x # xs = (x # pre) @ r # post \<and> P r \<and> g r = (l, b) \<and> b \<notin> set seen \<and>
          (\<forall>r' \<in> set (x # pre). P r' \<longrightarrow> snd (g r') \<noteq> b)"
        by simp
      then show ?thesis by blast
    next
      case fresh: False
      with True Cons.prems
      consider "g x = (l, b)"
        | "(l, b) \<in> set (drop_duplicates_from (snd (g x) # seen) (map g (filter P xs)))"
        by auto
      then show ?thesis
      proof cases
        case 1
        with True fresh have "x # xs = [] @ x # xs \<and> P x \<and> g x = (l, b) \<and> b \<notin> set seen \<and>
            (\<forall>r' \<in> set []. P r' \<longrightarrow> snd (g r') \<noteq> b)"
          by auto
        then show ?thesis by blast
      next
        case 2
        from Cons.IH [OF this] obtain pre r post where
          h: "xs = pre @ r # post" "P r" "g r = (l, b)" "b \<notin> set (snd (g x) # seen)"
             "\<forall>r' \<in> set pre. P r' \<longrightarrow> snd (g r') \<noteq> b"
          by blast
        then have "x # xs = (x # pre) @ r # post \<and> P r \<and> g r = (l, b) \<and> b \<notin> set seen \<and>
            (\<forall>r' \<in> set (x # pre). P r' \<longrightarrow> snd (g r') \<noteq> b)"
          by auto
        then show ?thesis by blast
      qed
    qed
  qed
qed

section \<open>The threshold detector: flags and events\<close>

lemma zip_map_same: "zip (map f xs) (map g xs) = map (\<lambda>x. (f x, g x)) xs"
  by (induction xs) simp_all

lemma identify_anomaly_unfold:
  "identify_anomaly df t =
     (map (\<lambda>r. r\<lparr>anomaly := Some (\<bar>rate r - w1_rate r\<bar> \<ge> t)\<rparr>) (sort_values df),
      drop_duplicates_from []
        (map (\<lambda>r. (idx r, quantise 10 (obmt r)))
          (filter (\<lambda>r. anomaly r = Some True)
            (map (\<lambda>r. r\<lparr>anomaly := Some (\<bar>rate r - w1_rate r\<bar> \<ge> t)\<rparr>) (sort_values df)))))"
  by (simp add: identify_anomaly_def sort_data_def identify_anomaly_body_def Let_def
      flagged_def drop_duplicates_def zip_map_same)

text \<open>
  Claim C1. The threshold detector flags a sample exactly when
  \<open>\<bar>rate - w1_rate\<bar> \<ge> t\<close> and leaves its other columns alone; the event list holds the
  values \<open>floor (obmt * 10) / 10\<close> of the flagged samples, each value once, in frame
  order, and every event carries the label of the first flagged sample of its bucket
  (no flagged sample before it has the same quantised time). The frame is the input
  sorted by \<^verbatim>\<open>obmt\<close>.
\<close>

theorem identify_anomaly_flags_and_events:
  assumes "identify_anomaly df t = (working_df, ev)"
  shows "length working_df = length (sort_values df) \<and>
    (\<forall>i < length working_df.
       working_df ! i = (sort_values df ! i)
         \<lparr>anomaly := Some (\<bar>rate (sort_values df ! i) - w1_rate (sort_values df ! i)\<bar> \<ge> t)\<rparr>) \<and>
    distinct (map snd ev) \<and>
    snd ` set ev = (\<lambda>r. of_int \<lfloor>obmt r * 10\<rfloor> / 10) ` {r \<in> set working_df. anomaly r = Some True} \<and>
    subseq ev (map (\<lambda>r. (idx r, of_int \<lfloor>obmt r * 10\<rfloor> / 10))
                 (filter (\<lambda>r. anomaly r = Some True) working_df)) \<and>
    (\<forall>(l, b) \<in> set ev. \<exists>pre r post.
        working_df = pre @ r # post \<and> anomaly r = Some True \<and> idx r = l \<and>
        b = of_int \<lfloor>obmt r * 10\<rfloor> / 10 \<and>
        (\<forall>r' \<in> set pre. anomaly r' = Some True \<longrightarrow> of_int \<lfloor>obmt r' * 10\<rfloor> / 10 \<noteq> b))"
proof -
  let ?g = "\<lambda>r. (idx r, of_int \<lfloor>obmt r * 10\<rfloor> / 10 :: real)"
  let ?P = "\<lambda>r. anomaly r = Some True"
  from assms have w: "working_df =
      map (\<lambda>r. r\<lparr>anomaly := Some (\<bar>rate r - w1_rate r\<bar> \<ge> t)\<rparr>) (sort_values df)"
    and ev: "ev = drop_duplicates_from [] (map ?g (filter ?P working_df))"
    by (auto simp add: identify_anomaly_unfold quantise_def)
  have 1: "length working_df = length (sort_values df)"
    by (simp add: w)
  have 2: "\<forall>i < length working_df.
       working_df ! i = (sort_values df ! i)
         \<lparr>anomaly := Some (\<bar>rate (sort_values df ! i) - w1_rate (sort_values df ! i)\<bar> \<ge> t)\<rparr>"
    by (simp add: w)
  have 3: "distinct (map snd ev)"
    unfolding ev by (rule drop_duplicates_from_distinct)
  have "snd ` set ev = snd ` set (map ?g (filter ?P working_df))"
    unfolding ev by (simp add: drop_duplicates_from_values)
  also have "\<dots> = (\<lambda>r. of_int \<lfloor>obmt r * 10\<rfloor> / 10) ` {r \<in> set working_df. anomaly r = Some True}"
    by (auto simp: image_iff)
  finally have 4: "snd ` set ev =
      (\<lambda>r. of_int \<lfloor>obmt r * 10\<rfloor> / 10) ` {r \<in> set working_df. anomaly r = Some True}" .
  have 5: "subseq ev (map ?g (filter ?P working_df))"
    unfolding ev by (rule drop_duplicates_from_subseq)
  have 6: "\<forall>(l, b) \<in> set ev. \<exists>pre r post.
        working_df = pre @ r # post \<and> anomaly r = Some True \<and> idx r = l \<and>
        b = of_int \<lfloor>obmt r * 10\<rfloor> / 10 \<and>
        (\<forall>r' \<in> set pre. anomaly r' = Some True \<longrightarrow> of_int \<lfloor>obmt r' * 10\<rfloor> / 10 \<noteq> b)"
  proof (clarify)
    fix l b assume "(l, b) \<in> set ev"
    then have "(l, b) \<in> set (drop_duplicates_from [] (map ?g (filter ?P working_df)))"
      by (simp add: ev)
    from drop_duplicates_from_first [OF this]
    obtain pre r post where "working_df = pre @ r # post" "?P r" "?g r = (l, b)"
      "\<forall>r' \<in> set pre. ?P r' \<longrightarrow> snd (?g r') \<noteq> b"
      by blast
    then have "working_df = pre @ r # post \<and> anomaly r = Some True \<and> idx r = l \<and>
        b = of_int \<lfloor>obmt r * 10\<rfloor> / 10 \<and>
        (\<forall>r' \<in> set pre. anomaly r' = Some True \<longrightarrow> of_int \<lfloor>obmt r' * 10\<rfloor> / 10 \<noteq> b)"
      by auto
    then show "\<exists>pre r post.
        working_df = pre @ r # post \<and> anomaly r = Some True \<and> idx r = l \<and>
        b = of_int \<lfloor>obmt r * 10\<rfloor> / 10 \<and>
        (\<forall>r' \<in> set pre. anomaly r' = Some True \<longrightarrow> of_int \<lfloor>obmt r' * 10\<rfloor> / 10 \<noteq> b)"
      by blast
  qed
  from 1 2 3 4 5 6 show ?thesis by blast
qed

theorem identify_anomaly_flags_and_events_witness:
  "identify_anomaly
     [mk_sample 0 0.31 4 0, mk_sample 1 0.12 0 0, mk_sample 2 0.15 (-3) 0, mk_sample 3 0.17 5 1] 2 =
     ([(mk_sample 1 0.12 0 0)\<lparr>anomaly := Some False\<rparr>,
       (mk_sample 2 0.15 (-3) 0)\<lparr>anomaly := Some True\<rparr>,
       (mk_sample 3 0.17 5 1)\<lparr>anomaly := Some True\<rparr>,
       (mk_sample 0 0.31 4 0)\<lparr>anomaly := Some True\<rparr>],
      [(2, 1 / 10), (0, 3 / 10)]) \<and>
   distinct (map snd [(2::int, 1 / 10 :: real), (0, 3 / 10)]) \<and>
   snd ` set [(2::int, 1 / 10 :: real), (0, 3 / 10)] =
     (\<lambda>r. of_int \<lfloor>obmt r * 10\<rfloor> / 10) `
       {r \<in> set [(mk_sample 1 0.12 0 0)\<lparr>anomaly := Some False\<rparr>,
                  (mk_sample 2 0.15 (-3) 0)\<lparr>anomaly := Some True\<rparr>,
                  (mk_sample 3 0.17 5 1)\<lparr>anomaly := Some True\<rparr>,
                  (mk_sample 0 0.31 4 0)\<lparr>anomaly := Some True\<rparr>]. anomaly r = Some True}"
proof -
  have h: "identify_anomaly
     [mk_sample 0 0.31 4 0, mk_sample 1 0.12 0 0, mk_sample 2 0.15 (-3) 0, mk_sample 3 0.17 5 1] 2 =
     ([(mk_sample 1 0.12 0 0)\<lparr>anomaly := Some False\<rparr>,
       (mk_sample 2 0.15 (-3) 0)\<lparr>anomaly := Some True\<rparr>,
       (mk_sample 3 0.17 5 1)\<lparr>anomaly := Some True\<rparr>,
       (mk_sample 0 0.31 4 0)\<lparr>anomaly := Some True\<rparr>],
      [(2, 1 / 10), (0, 3 / 10)])"
    by (simp add: identify_anomaly_unfold sort_values_def mk_sample_def quantise_def)
  from identify_anomaly_flags_and_events [OF h] h show ?thesis
    by blast
qed

section \<open>The smoothing filter: recurrence, termination and coefficients\<close>

lemma low_pass_loop_end: "length d \<le> i \<Longrightarrow> low_pass_loop a d x i = ([], None)"
  by (simp add: low_pass_loop.simps [of a d x i] getitem_def)

lemma low_pass_loop_step:
  "i < length d \<Longrightarrow> low_pass_loop a d x i =
     ((x + a * (d ! i - x)) # fst (low_pass_loop a d (x + a * (d ! i - x)) (Suc i)),
      snd (low_pass_loop a d (x + a * (d ! i - x)) (Suc i)))"
  by (simp add: low_pass_loop.simps [of a d x i] getitem_def Let_def split: prod.splits)

lemma low_pass_loop_normal: "snd (low_pass_loop a d x i) = None"
proof (induction "length d - i" arbitrary: x i)
  case 0
  then show ?case by (simp add: low_pass_loop_end)
next
  case (Suc k)
  then have "i < length d" "k = length d - Suc i" by simp_all
  with Suc.hyps(1) [of "Suc i"] show ?case by (simp add: low_pass_loop_step)
qed

lemma low_pass_loop_length: "length (fst (low_pass_loop a d x i)) = length d - i"
proof (induction "length d - i" arbitrary: x i)
  case 0
  then show ?case by (simp add: low_pass_loop_end)
next
  case (Suc k)
  then have "i < length d" "k = length d - Suc i" by simp_all
  with Suc.hyps(1) [of "Suc i"] show ?case by (simp add: low_pass_loop_step)
qed

lemma low_pass_loop_first:
  "i < length d \<Longrightarrow> fst (low_pass_loop a d x i) ! 0 = x + a * (d ! i - x)"
  by (simp add: low_pass_loop_step)

lemma low_pass_loop_rec:
  "i + Suc n < length d \<Longrightarrow>
   fst (low_pass_loop a d x i) ! Suc n =
     fst (low_pass_loop a d x i) ! n + a * (d ! (i + Suc n) - fst (low_pass_loop a d x i) ! n)"
proof (induction n arbitrary: x i)
  case 0
  then have "i < length d" "Suc i < length d" by simp_all
  then show ?case
    by (simp add: low_pass_loop_step [of i] low_pass_loop_first)
next
  case (Suc n)
  then have i: "i < length d" and "Suc i + Suc n < length d" by simp_all
  from Suc.IH [OF this(2)] i show ?case
    by (simp add: low_pass_loop_step [of i])
qed


lemma low_pass_nonempty:
  "data_array \<noteq> [] \<Longrightarrow>
   low_pass self data_array alpha_arg =
     low_pass_loop (case alpha_arg of None \<Rightarrow> self_alpha self | Some a \<Rightarrow> a)
       data_array (data_array ! 0) 0"
  by (simp add: low_pass_def getitem_def)

text \<open>
  Against claim C3 as stated: on the input \<open>[0, 1]\<close> with \<open>alpha = 1 / 2\<close> the filter
  yields \<open>[0, 1 / 2]\<close>, so \<open>y[1]\<close> is not \<open>y[0] + alpha * (x[0] - y[0]) = 0\<close>.
\<close>

theorem low_pass_recurrence_counterexample:
  "fst (low_pass lp_half [0, 1] None) ! 1 \<noteq>
   fst (low_pass lp_half [0, 1] None) ! 0 +
     self_alpha lp_half * ([0, 1] ! 0 - fst (low_pass lp_half [0, 1] None) ! 0)"
  by (simp add: low_pass_def getitem_def low_pass_loop_step low_pass_loop_end lp_half_def)

text \<open>
  Claim C3, amended. For a non-empty input \<open>x\<close> the filter yields a sequence \<open>y\<close> of the
  same length with \<open>y[0] = x[0]\<close> and \<open>y[n+1] = y[n] + alpha * (x[n+1] - y[n])\<close>: the
  update that produces \<open>y[n+1]\<close> reads the input sample \<open>x[n+1]\<close>. The generator then
  returns normally.
\<close>

theorem low_pass_recurrence:
  assumes "data_array \<noteq> []"
  shows "\<exists>ys. low_pass self data_array alpha_arg = (ys, None) \<and>
     length ys = length data_array \<and>
     ys ! 0 = data_array ! 0 \<and>
     (\<forall>n. Suc n < length data_array \<longrightarrow>
        ys ! Suc n = ys ! n +
          (case alpha_arg of None \<Rightarrow> self_alpha self | Some a \<Rightarrow> a) *
            (data_array ! Suc n - ys ! n))"
proof -
  let ?a = "case alpha_arg of None \<Rightarrow> self_alpha self | Some a \<Rightarrow> a"
  let ?r = "low_pass_loop ?a data_array (data_array ! 0) 0"
  from assms have pos: "0 < length data_array" by simp
  have eq: "low_pass self data_array alpha_arg = ?r"
    using assms by (rule low_pass_nonempty)
  have "?r = (fst ?r, None)"
    using low_pass_loop_normal [of ?a data_array "data_array ! 0" 0]
    by (simp add: prod_eq_iff)
  moreover have "length (fst ?r) = length data_array"
    by (simp add: low_pass_loop_length)
  moreover have "fst ?r ! 0 = data_array ! 0"
    using pos by (simp add: low_pass_loop_first)
  moreover have "\<forall>n. Suc n < length data_array \<longrightarrow>
      fst ?r ! Suc n = fst ?r ! n + ?a * (data_array ! Suc n - fst ?r ! n)"
    using low_pass_loop_rec [of 0 _ data_array ?a "data_array ! 0"] by simp
  ultimately show ?thesis
    unfolding eq by blast
qed

theorem low_pass_recurrence_witness:
  "[0, 1] \<noteq> ([] :: real list) \<and>
   (\<exists>ys. low_pass lp_half [0, 1] None = (ys, None) \<and> length ys = 2 \<and> ys ! 0 = 0 \<and>
      ys ! 1 = ys ! 0 + 1 / 2 * (1 - ys ! 0))"
proof -
  have h: "[0, 1] \<noteq> ([] :: real list)" by simp
  from low_pass_recurrence [OF h, of lp_half None] show ?thesis
    by (auto simp: lp_half_def)
qed

text \<open>
  Claim C10. On the empty input the generator raises \<^verbatim>\<open>IndexError\<close> before it yields
  anything: \<^verbatim>\<open>data_array[0]\<close> is read outside the guarded loop. On a non-empty input the
  \<^verbatim>\<open>IndexError\<close> inside the loop is only the end of the input: the generator has then
  yielded one value for each input sample and returns normally.
\<close>

theorem low_pass_empty_raises:
  "low_pass self [] alpha_arg = ([], Some IndexError) \<and>
   (data_array \<noteq> [] \<longrightarrow>
      snd (low_pass self data_array alpha_arg) = None \<and>
      length (fst (low_pass self data_array alpha_arg)) = length data_array)"
  by (simp add: low_pass_nonempty low_pass_loop_normal low_pass_loop_length)
     (simp add: low_pass_def getitem_def)

theorem low_pass_empty_raises_witness:
  "low_pass lp_half [] None = ([], Some IndexError) \<and> [0, 1] \<noteq> ([] :: real list) \<and>
   snd (low_pass lp_half [0, 1] None) = None \<and> length (fst (low_pass lp_half [0, 1] None)) = 2"
  using low_pass_empty_raises [of lp_half None "[0, 1]"] by simp

text \<open>
  Claim C7. \<^verbatim>\<open>tweak_cutoff\<close> sets \<open>alpha = 1 - exp (- dt * f)\<close>, which is not the formula
  \<open>2 * pi * dt * f / (2 * pi * dt * f + 1)\<close> of the constructor and of the module's
  documentation: for a filter built without timestamps (\<open>dt = 1\<close>) and \<open>f = 1\<close> the
  two values differ.
\<close>

theorem tweak_cutoff_alpha_differs:
  "(case LowPassData_init None of
      Inl e \<Rightarrow> False
    | Inr s \<Rightarrow>
        self_dt s = 1 \<and>
        self_alpha (tweak_cutoff s 1) = 1 - exp (- 1) \<and>
        self_alpha (tweak_cutoff s 1) \<noteq> 2 * pi * self_dt s * 1 / (2 * pi * self_dt s * 1 + 1))"
proof -
  have "exp (1::real) \<le> 3" by (rule exp_le)
  then have "1 / 3 \<le> 1 / exp (1::real)"
    by (intro divide_left_mono) simp_all
  then have a: "1 - exp (- 1 :: real) \<le> 2 / 3"
    by (simp add: exp_minus inverse_eq_divide)
  have "1 < pi" using pi_ge_two by simp
  then have b: "2 / 3 < 2 * pi / (2 * pi + 1)"
    by (simp add: field_simps)
  from a b have "1 - exp (- 1 :: real) \<noteq> 2 * pi / (2 * pi + 1)" by simp
  then show ?thesis
    by (simp add: LowPassData_init_def tweak_cutoff_def reset_def)
qed

text \<open>
  Against claim C8 as stated: with a timestamp array of one sample the constructor
  raises \<^verbatim>\<open>IndexError\<close> at \<^verbatim>\<open>self._obmt[1]\<close>; it does not set \<open>dt = 1\<close>.
\<close>

theorem LowPassData_init_short_counterexample:
  "LowPassData_init (Some [5]) = Inl IndexError"
  by (simp add: LowPassData_init_def getitem_def)

text \<open>
  Claim C8, amended. With a timestamp array of at least two samples the constructor
  succeeds with \<open>dt = (obmt[1] - obmt[0]) * 21600\<close>; when the filter holds no timestamps
  (\<^verbatim>\<open>self._obmt is None\<close>) it succeeds with \<open>dt = 1\<close>.
\<close>

theorem LowPassData_init_dt:
  "(obmt_arg = None \<longrightarrow> (\<exists>s. LowPassData_init obmt_arg = Inr s \<and> self_dt s = 1)) \<and>
   (\<forall>ob. obmt_arg = Some ob \<and> 2 \<le> length ob \<longrightarrow>
      (\<exists>s. LowPassData_init obmt_arg = Inr s \<and> self_dt s = (ob ! 1 - ob ! 0) * 21600))"
  by (auto simp: LowPassData_init_def getitem_def)

theorem LowPassData_init_dt_witness:
  "(\<exists>s. LowPassData_init None = Inr s \<and> self_dt s = 1) \<and>
   (2::nat) \<le> length [0, 1 / 1000 :: real] \<and>
   (\<exists>s. LowPassData_init (Some [0, 1 / 1000]) = Inr s \<and> self_dt s = 108 / 5)"
  using LowPassData_init_dt [of None] LowPassData_init_dt [of "Some [0, 1 / 1000]"]
  by simp

section \<open>The noise classifier: few events, second differences\<close>

lemma sort_values_idem: "sort_values (sort_values df) = sort_values df"
  by (simp add: sort_values_def sort_key_id_if_sorted)

lemma identify_anomaly_sorted: "identify_anomaly (sort_values df) t = identify_anomaly df t"
  by (simp add: identify_anomaly_def sort_data_def sort_values_idem)

lemma identify_noise_eq:
  "identify_noise df =
     identify_noise_classify (fst (identify_anomaly df 2)) (snd (identify_anomaly df 2))"
  by (simp add: identify_noise_def sort_data_def identify_noise_body_def identify_anomaly_sorted
      split_def Let_def)


lemma distinct_idx_sort_values:
  "distinct (map idx df) \<Longrightarrow> distinct (map idx (sort_values df))"
  by (simp add: distinct_map sort_values_def)

lemma drop_duplicates_from_labels:
  "distinct (map fst es) \<Longrightarrow> distinct (map fst (drop_duplicates_from seen es))"
proof (induction es arbitrary: seen)
  case (Cons e es)
  have "fst ` set (drop_duplicates_from (snd e # seen) es) \<subseteq> fst ` set es"
    using drop_duplicates_from_subset [of "snd e # seen" es] by blast
  with Cons show ?case by auto
qed simp

text \<open>What the threshold detector returns: labels, and the sample behind each event.\<close>

lemma identify_anomaly_events:
  assumes "identify_anomaly df t = (data, ev)"
  shows "map idx data = map idx (sort_values df)"
    and "\<forall>(l, b) \<in> set ev. \<exists>r \<in> set data.
           idx r = l \<and> of_int \<lfloor>obmt r * 10\<rfloor> / 10 = b \<and> anomaly r = Some True"
    and "distinct (map idx df) \<Longrightarrow> distinct (map fst ev)"
proof -
  let ?g = "\<lambda>r. (idx r, quantise 10 (obmt r))"
  let ?P = "\<lambda>r. anomaly r = Some True"
  from assms have w: "data =
      map (\<lambda>r. r\<lparr>anomaly := Some (\<bar>rate r - w1_rate r\<bar> \<ge> t)\<rparr>) (sort_values df)"
    and ev: "ev = drop_duplicates_from [] (map ?g (filter ?P data))"
    by (auto simp add: identify_anomaly_unfold)
  show 1: "map idx data = map idx (sort_values df)"
    by (simp add: w comp_def)
  show "\<forall>(l, b) \<in> set ev. \<exists>r \<in> set data.
           idx r = l \<and> of_int \<lfloor>obmt r * 10\<rfloor> / 10 = b \<and> anomaly r = Some True"
  proof (clarify)
    fix l b assume "(l, b) \<in> set ev"
    then have "(l, b) \<in> set (map ?g (filter ?P data))"
      using drop_duplicates_from_subset [of "[]" "map ?g (filter ?P data)"]
      unfolding ev by blast
    then obtain r where r: "r \<in> set data" "anomaly r = Some True"
        "idx r = l" "quantise 10 (obmt r) = b"
      by auto
    from r(4) have "of_int \<lfloor>obmt r * 10\<rfloor> / 10 = b"
      by (simp only: quantise_def)
    with r show "\<exists>r \<in> set data.
           idx r = l \<and> of_int \<lfloor>obmt r * 10\<rfloor> / 10 = b \<and> anomaly r = Some True"
      by blast
  qed
  assume "distinct (map idx df)"
  then have "distinct (map idx data)"
    by (simp add: 1 distinct_idx_sort_values)
  then have "distinct (map idx (filter ?P data))"
    by (rule distinct_map_filter)
  then have "distinct (map fst (map ?g (filter ?P data)))"
    by (simp add: comp_def)
  then show "distinct (map fst ev)"
    unfolding ev by (rule drop_duplicates_from_labels)
qed









lemma padded_second_difference:
  assumes "3 \<le> length ts" and "i < length ts"
  shows "(1 # 1 # np_diff (np_diff ts)) ! i =
     (if i < 2 then 1 else (ts ! i - ts ! (i - 1)) - (ts ! (i - 1) - ts ! (i - 2)))"
proof (cases "i < 2")
  case True
  then have "i = 0 \<or> i = 1" by auto
  then show ?thesis by auto
next
  case False
  define k where "k = i - 2"
  with False have k: "i = Suc (Suc k)" by simp
  with assms have "Suc k < length (np_diff ts)" "Suc k < length ts" "Suc (Suc k) < length ts"
    by (simp_all add: length_np_diff)
  then have "np_diff (np_diff ts) ! k = (ts ! Suc (Suc k) - ts ! Suc k) - (ts ! Suc k - ts ! k)"
    by (simp add: nth_np_diff)
  with k show ?thesis by simp
qed

text \<open>
  Against claim C2 as stated: three flagged samples with the same index label 7 at the
  times 0, 1 and 2 give three events, and the classifier raises \<^verbatim>\<open>ValueError\<close> in line
  248; it classifies no event.
\<close>

theorem identify_noise_second_difference_counterexample:
  "3 \<le> length (snd (identify_anomaly [mk_sample 7 0 4 0, mk_sample 7 1 4 0, mk_sample 7 2 4 0] 2)) \<and>
   identify_noise [mk_sample 7 0 4 0, mk_sample 7 1 4 0, mk_sample 7 2 4 0] = Inl ValueError"
  by (simp add: identify_noise_eq identify_noise_classify_def identify_anomaly_unfold
      sort_values_def mk_sample_def quantise_def)

text \<open>
  Claim C2, amended. With at least 3 events whose index labels are distinct, the noise
  classifier returns normally with a row for every sample, and the row of event \<open>i\<close> has
  \<open>hits = True\<close> exactly when the padded second difference is at least \<open>0.5\<close>: the
  padded value is the sentinel \<open>1\<close> for the first two events, and
  \<open>(t[i] - t[i-1]) - (t[i-1] - t[i-2])\<close> from the third on. The first two events are
  always \<open>hits = True\<close>, and a row whose label is no event label has \<open>hits = False\<close>.
\<close>

theorem identify_noise_second_difference:
  assumes "identify_anomaly df 2 = (data, t)"
    and "3 \<le> length t"
    and "distinct (map fst t)"
  shows "\<exists>out. identify_noise df = Inr (out, t) \<and>
     map idx out = map idx data \<and>
     (\<forall>i < length t. \<exists>r \<in> set out. idx r = fst (t ! i)) \<and>
     (\<forall>i < length t. \<forall>r \<in> set out. idx r = fst (t ! i) \<longrightarrow>
        hits r = Some ((if i < 2 then 1
                        else (snd (t ! i) - snd (t ! (i - 1))) -
                             (snd (t ! (i - 1)) - snd (t ! (i - 2)))) \<ge> 1 / 2)) \<and>
     (\<forall>i < 2. \<forall>r \<in> set out. idx r = fst (t ! i) \<longrightarrow> hits r = Some True) \<and>
     (\<forall>r \<in> set out. idx r \<notin> fst ` set t \<longrightarrow> hits r = Some False)"
proof -
  define dd where "dd = 1 # 1 # np_diff (np_diff (map snd t))"
  define hd where
    "hd = zip (map fst t) (map (\<lambda>d. if d < 0.5 then False else True) dd)"
  define f :: "sample \<Rightarrow> sample" where
    "f = (\<lambda>r. r\<lparr>hits := Some (case map_of hd (idx r) of Some h \<Rightarrow> h | None \<Rightarrow> False)\<rparr>)"
  have f: "idx (f r) = idx r"
    "hits (f r) = Some (case map_of hd (idx r) of Some h \<Rightarrow> h | None \<Rightarrow> False)" for r
    by (simp_all add: f_def)
  from assms(2) have len: "length dd = length t"
    by (simp add: dd_def length_np_diff)
  from assms len have out: "identify_noise df = Inr (map f data, t)"
    by (simp add: identify_noise_eq identify_noise_classify_def length_np_diff
        f_def hd_def dd_def)
  note dt = assms(3)
  have look: "map_of hd (fst (t ! i)) = Some (1 / 2 \<le> dd ! i)" if "i < length t" for i
  proof -
    have "map_of hd (map fst t ! i) =
        Some (map (\<lambda>d. if d < 0.5 then False else True) dd ! i)"
      unfolding hd_def using that len dt by (intro map_of_zip_nth) simp_all
    with that len show ?thesis by (simp add: not_less)
  qed
  have ddi: "dd ! i = (if i < 2 then 1
        else (snd (t ! i) - snd (t ! (i - 1))) - (snd (t ! (i - 1)) - snd (t ! (i - 2))))"
    if "i < length t" for i
    using padded_second_difference [of "map snd t" i] that assms(2) by (simp add: dd_def)
  have 1: "map idx (map f data) = map idx data"
    by (simp add: comp_def f)
  have 2: "\<forall>i < length t. \<exists>r \<in> set (map f data). idx r = fst (t ! i)"
  proof (intro allI impI)
    fix i assume "i < length t"
    then have "(fst (t ! i), snd (t ! i)) \<in> set t" by simp
    from identify_anomaly_events(2) [OF assms(1), THEN bspec, OF this]
    obtain r where "r \<in> set data" "idx r = fst (t ! i)" by auto
    then have "f r \<in> set (map f data)" "idx (f r) = fst (t ! i)" by (simp_all add: f)
    then show "\<exists>r \<in> set (map f data). idx r = fst (t ! i)" by blast
  qed
  have 3: "\<forall>i < length t. \<forall>r \<in> set (map f data). idx r = fst (t ! i) \<longrightarrow>
        hits r = Some ((if i < 2 then 1
                        else (snd (t ! i) - snd (t ! (i - 1))) -
                             (snd (t ! (i - 1)) - snd (t ! (i - 2)))) \<ge> 1 / 2)"
  proof (intro allI impI ballI)
    fix i r assume i: "i < length t" and "r \<in> set (map f data)" and r: "idx r = fst (t ! i)"
    then obtain r0 where "r = f r0" by auto
    with r have "hits r = Some (case map_of hd (fst (t ! i)) of Some h \<Rightarrow> h | None \<Rightarrow> False)"
      by (simp add: f)
    also have "\<dots> = Some (1 / 2 \<le> dd ! i)" by (simp add: look [OF i])
    finally show "hits r = Some ((if i < 2 then 1
                        else (snd (t ! i) - snd (t ! (i - 1))) -
                             (snd (t ! (i - 1)) - snd (t ! (i - 2)))) \<ge> 1 / 2)"
      by (simp only: ddi [OF i])
  qed
  have 4: "\<forall>i < 2. \<forall>r \<in> set (map f data). idx r = fst (t ! i) \<longrightarrow> hits r = Some True"
  proof (intro allI impI ballI)
    fix i :: nat and r assume i: "i < 2" and m: "r \<in> set (map f data)" and r: "idx r = fst (t ! i)"
    from i assms(2) have "i < length t" by simp
    from 3 [rule_format, OF this m r] i show "hits r = Some True" by simp
  qed
  have 5: "\<forall>r \<in> set (map f data). idx r \<notin> fst ` set t \<longrightarrow> hits r = Some False"
  proof (intro ballI impI)
    fix r assume "r \<in> set (map f data)" and n: "idx r \<notin> fst ` set t"
    then obtain r0 where r0: "r = f r0" by auto
    from n len have "map_of hd (idx r) = None"
      unfolding hd_def by (subst map_of_zip_is_None) simp_all
    with r0 show "hits r = Some False" by (simp add: f)
  qed
  show ?thesis
    by (rule exI [of _ "map f data"]) (intro conjI out 1 2 3 4 5)
qed

theorem identify_noise_second_difference_witness:
  "identify_anomaly [mk_sample 0 1 4 0, mk_sample 1 2 4 0, mk_sample 2 3 4 0] 2 =
     ([(mk_sample 0 1 4 0)\<lparr>anomaly := Some True\<rparr>, (mk_sample 1 2 4 0)\<lparr>anomaly := Some True\<rparr>,
       (mk_sample 2 3 4 0)\<lparr>anomaly := Some True\<rparr>],
      [(0, 1), (1, 2), (2, 3)]) \<and>
   3 \<le> length [(0::int, 1::real), (1, 2), (2, 3)] \<and>
   distinct (map fst [(0::int, 1::real), (1, 2), (2, 3)]) \<and>
   (\<exists>out. identify_noise [mk_sample 0 1 4 0, mk_sample 1 2 4 0, mk_sample 2 3 4 0] =
            Inr (out, [(0, 1), (1, 2), (2, 3)]) \<and>
      map idx out = [0, 1, 2] \<and>
      (\<forall>r \<in> set out. idx r = 2 \<longrightarrow> hits r = Some False) \<and>
      (\<forall>r \<in> set out. idx r = 1 \<longrightarrow> hits r = Some True))"
proof -
  have h1: "identify_anomaly [mk_sample 0 1 4 0, mk_sample 1 2 4 0, mk_sample 2 3 4 0] 2 =
     ([(mk_sample 0 1 4 0)\<lparr>anomaly := Some True\<rparr>, (mk_sample 1 2 4 0)\<lparr>anomaly := Some True\<rparr>,
       (mk_sample 2 3 4 0)\<lparr>anomaly := Some True\<rparr>],
      [(0, 1), (1, 2), (2, 3)])"
    by (simp add: identify_anomaly_unfold sort_values_def mk_sample_def quantise_def)
  have h2: "3 \<le> length [(0::int, 1::real), (1, 2), (2, 3)]" by simp
  have h3: "distinct (map fst [(0::int, 1::real), (1, 2), (2, 3)])" by simp
  from identify_noise_second_difference [OF h1 h2 h3] obtain out where
    o: "identify_noise [mk_sample 0 1 4 0, mk_sample 1 2 4 0, mk_sample 2 3 4 0] =
            Inr (out, [(0, 1), (1, 2), (2, 3)])"
       "map idx out = map idx [(mk_sample 0 1 4 0)\<lparr>anomaly := Some True\<rparr>,
          (mk_sample 1 2 4 0)\<lparr>anomaly := Some True\<rparr>, (mk_sample 2 3 4 0)\<lparr>anomaly := Some True\<rparr>]"
       "\<forall>i < length [(0::int, 1::real), (1, 2), (2, 3)]. \<forall>r \<in> set out.
          idx r = fst ([(0::int, 1::real), (1, 2), (2, 3)] ! i) \<longrightarrow>
          hits r = Some ((if i < 2 then 1
                        else (snd ([(0::int, 1::real), (1, 2), (2, 3)] ! i) -
                              snd ([(0::int, 1::real), (1, 2), (2, 3)] ! (i - 1))) -
                             (snd ([(0::int, 1::real), (1, 2), (2, 3)] ! (i - 1)) -
                              snd ([(0::int, 1::real), (1, 2), (2, 3)] ! (i - 2)))) \<ge> 1 / 2)"
    by (elim exE conjE)
  from o(3) [rule_format, of 2] have a: "\<forall>r \<in> set out. idx r = 2 \<longrightarrow> hits r = Some False"
    by simp
  from o(3) [rule_format, of 1] have b: "\<forall>r \<in> set out. idx r = 1 \<longrightarrow> hits r = Some True"
    by simp
  from o(2) have c: "map idx out = [0, 1, 2]" by (simp add: mk_sample_def)
  have ex: "\<exists>out. identify_noise [mk_sample 0 1 4 0, mk_sample 1 2 4 0, mk_sample 2 3 4 0] =
            Inr (out, [(0, 1), (1, 2), (2, 3)]) \<and>
      map idx out = [0, 1, 2] \<and>
      (\<forall>r \<in> set out. idx r = 2 \<longrightarrow> hits r = Some False) \<and>
      (\<forall>r \<in> set out. idx r = 1 \<longrightarrow> hits r = Some True)"
    by (rule exI [of _ out]) (intro conjI o(1) a b c)
  show ?thesis by (intro conjI h1 h2 h3 ex)
qed

text \<open>
  Claim C5. With fewer than 3 events the classifier returns \<^verbatim>\<open>working_df.loc[t.index]\<close>,
  the rows of the events only: for a series of two samples of which one is anomalous,
  the returned frame has one row, and the sample that is no event is not in it.
\<close>

theorem identify_noise_drops_unflagged_samples:
  "identify_noise [mk_sample 0 0 0 0, mk_sample 1 1 4 0] =
     Inr ([(mk_sample 1 1 4 0)\<lparr>anomaly := Some True, hits := Some True\<rparr>], [(1, 1)])"
  by (simp add: identify_noise_eq identify_noise_classify_def identify_anomaly_unfold
      sort_values_def mk_sample_def quantise_def loc_rows_def)

section \<open>The gradient detector: the sign of the difference\<close>

text \<open>
  Claim C6. The gradient detector compares the difference itself with the threshold,
  not its magnitude: a sample whose deviation drops by 1 is not flagged for the
  threshold \<open>0.3\<close>, although the magnitude of the difference is at least \<open>0.3\<close>.
\<close>

theorem identify_through_gradient_sign_sensitive:
  "identify_through_gradient [mk_sample 0 0 0 0, mk_sample 1 1 (- 1) 0] 0.3 =
     Inr ([(mk_sample 0 0 0 0)\<lparr>grad := Some 0, anomaly := Some False\<rparr>,
           (mk_sample 1 1 (- 1) 0)\<lparr>grad := Some (- 1), anomaly := Some False\<rparr>], []) \<and>
   \<bar>(rate (mk_sample 1 1 (- 1) 0) - w1_rate (mk_sample 1 1 (- 1) 0)) -
     (rate (mk_sample 0 0 0 0) - w1_rate (mk_sample 0 0 0 0))\<bar> \<ge> 0.3"
  by (simp add: identify_through_gradient_def sort_data_def identify_through_gradient_body_def
      sort_values_def mk_sample_def quantise_def flagged_def drop_duplicates_def abs_bool_def)


section \<open>The detectors on frame objects: the input is left alone\<close>

lemma identify_anomaly_body_obj_eq:
  "a < length s \<Longrightarrow>
   identify_anomaly_body_obj s a thr =
     (s @ [fst (identify_anomaly_body (s ! a) thr)], length s,
      snd (identify_anomaly_body (s ! a) thr))"
  by (simp add: identify_anomaly_body_obj_def df_copy_def Let_def identify_anomaly_body_def
      nth_append)

lemma identify_through_gradient_body_obj_eq:
  "a < length s \<Longrightarrow>
   identify_through_gradient_body_obj s a g =
     (case identify_through_gradient_body (s ! a) g of
        Inl u \<Rightarrow> (s @ [s ! a, sort_values (s ! a)], Inl u)
      | Inr (w, ev) \<Rightarrow> (s @ [s ! a, w], Inr (Suc (length s), ev)))"
  by (simp add: identify_through_gradient_body_obj_def df_sort_values_def df_copy_def Let_def
      identify_through_gradient_body_def nth_append list_update_append)

lemma sorts_without_mutationD:
  assumes "sorts_without_mutation dec" and "a < length s"
  shows "take (length s) (fst (dec s a)) = s"
    and "length s \<le> length (fst (dec s a))"
    and "snd (dec s a) < length (fst (dec s a))"
    and "fst (dec s a) ! snd (dec s a) = sort_values (s ! a)"
proof -
  from assms show 1: "take (length s) (fst (dec s a)) = s"
    and "snd (dec s a) < length (fst (dec s a))"
    and "fst (dec s a) ! snd (dec s a) = sort_values (s ! a)"
    by (simp_all add: sorts_without_mutation_def)
  from 1 have "length (take (length s) (fst (dec s a))) = length s" by simp
  then show "length s \<le> length (fst (dec s a))" by simp
qed

lemma sorts_without_mutation_alias: "sorts_without_mutation sort_data_alias"
  by (simp add: sorts_without_mutation_def sort_data_alias_def nth_append)

lemma sort_values_Nil: "sort_values [] = []"
  by (simp add: sort_values_def)

lemma take_extended:
  "take (length s) s1 = s \<Longrightarrow> length s \<le> length s1 \<Longrightarrow> take (length s) (s1 @ new) = s"
  by simp

lemma identify_anomaly_obj_eq:
  assumes "sorts_without_mutation dec" and "a < length s"
  shows "identify_anomaly_obj dec s a thr =
     (fst (dec s a) @ [fst (identify_anomaly (s ! a) thr)], length (fst (dec s a)),
      snd (identify_anomaly (s ! a) thr))"
  using sorts_without_mutationD(3,4) [OF assms]
  by (simp add: identify_anomaly_obj_def sort_data_obj_def split_def Let_def
      identify_anomaly_body_obj_eq identify_anomaly_def sort_data_def)

lemma identify_through_gradient_obj_eq:
  assumes "sorts_without_mutation dec" and "a < length s"
  shows "identify_through_gradient_obj dec s a g =
     (case identify_through_gradient (s ! a) g of
        Inl u \<Rightarrow> (fst (dec s a) @ [sort_values (s ! a), sort_values (s ! a)], Inl u)
      | Inr (w, ev) \<Rightarrow>
          (fst (dec s a) @ [sort_values (s ! a), w], Inr (Suc (length (fst (dec s a))), ev)))"
  using sorts_without_mutationD(3,4) [OF assms]
  by (simp add: identify_through_gradient_obj_def sort_data_obj_def split_def
      identify_through_gradient_body_obj_eq identify_through_gradient_def sort_data_def
      identify_through_gradient_body_def sort_values_idem sort_values_Nil Let_def)

lemma identify_noise_body_obj_frame:
  assumes dec: "sorts_without_mutation dec" and a: "a < length s"
  shows "take (length s) (fst (identify_noise_body_obj dec s a)) = s \<and>
     (case snd (identify_noise_body_obj dec s a) of
        Inl e \<Rightarrow> identify_noise_body (s ! a) = Inl e
      | Inr (w, ev) \<Rightarrow>
          length s \<le> w \<and> w < length (fst (identify_noise_body_obj dec s a)) \<and>
          identify_noise_body (s ! a) = Inr (fst (identify_noise_body_obj dec s a) ! w, ev))"
proof -
  let ?s1 = "fst (dec s a)"
  let ?D = "fst (identify_anomaly (s ! a) 2)"
  let ?t = "snd (identify_anomaly (s ! a) 2)"
  note an = identify_anomaly_obj_eq [OF dec a, of 2]
  note pre = sorts_without_mutationD(1,2) [OF dec a]
  have val: "identify_noise_body (s ! a) = identify_noise_classify ?D ?t"
    by (simp add: identify_noise_body_def split_def Let_def)
  show ?thesis
  proof (cases "length ?t < 3")
    case True
    let ?W = "map (\<lambda>r. r\<lparr>hits := anomaly r\<rparr>) ?D"
    show ?thesis
    proof (cases "loc_rows ?W (map fst ?t)")
      case (Inl e)
      with True an have "identify_noise_body_obj dec s a = (?s1 @ [?D, ?W], Inl e)"
        by (simp add: identify_noise_body_obj_def df_copy_def Let_def nth_append
            list_update_append)
      moreover from True Inl have "identify_noise_classify ?D ?t = Inl e"
        by (simp add: identify_noise_classify_def)
      ultimately show ?thesis using pre by (simp add: val)
    next
      case (Inr rows)
      with True an have "identify_noise_body_obj dec s a =
          (?s1 @ [?D, ?W, rows], Inr (length ?s1 + 2, ?t))"
        by (simp add: identify_noise_body_obj_def df_copy_def Let_def nth_append
            list_update_append)
      moreover from True Inr have "identify_noise_classify ?D ?t = Inr (rows, ?t)"
        by (simp add: identify_noise_classify_def)
      ultimately show ?thesis using pre by (simp add: val nth_append)
    qed
  next
    case False
    let ?dd = "1 # 1 # np_diff (np_diff (map snd ?t))"
    let ?W = "map (\<lambda>r. r\<lparr>hits :=
                 Some (case map_of (zip (map fst ?t)
                                (map (\<lambda>d. if d < 0.5 then False else True) ?dd)) (idx r) of
                         Some h \<Rightarrow> h | None \<Rightarrow> False)\<rparr>) ?D"
    from False have len: "Suc (length (np_diff (map snd ?t))) = length ?t"
        "Suc (Suc (length (np_diff (np_diff (map snd ?t))))) = length ?t"
      by (simp_all add: length_np_diff)
    show ?thesis
    proof (cases "distinct (map fst ?t)")
      case True
      with False an len have "identify_noise_body_obj dec s a =
          (?s1 @ [?D, ?W], Inr (length ?s1 + 1, ?t))"
        by (simp add: identify_noise_body_obj_def df_copy_def Let_def nth_append
            list_update_append)
      moreover from False True len have "identify_noise_classify ?D ?t = Inr (?W, ?t)"
        by (simp add: identify_noise_classify_def Let_def)
      ultimately show ?thesis using pre by (simp add: val nth_append)
    next
      case dup: False
      with False an len have "identify_noise_body_obj dec s a =
          (?s1 @ [?D, ?D], Inl ValueError)"
        by (simp add: identify_noise_body_obj_def df_copy_def Let_def nth_append
            list_update_append)
      moreover from False dup len have "identify_noise_classify ?D ?t = Inl ValueError"
        by (simp add: identify_noise_classify_def Let_def)
      ultimately show ?thesis using pre by (simp add: val)
    qed
  qed
qed

lemma identify_noise_obj_frame:
  assumes dec: "sorts_without_mutation dec" and a: "a < length s"
  shows "take (length s) (fst (identify_noise_obj dec s a)) = s \<and>
     (case snd (identify_noise_obj dec s a) of
        Inl e \<Rightarrow> identify_noise (s ! a) = Inl e
      | Inr (w, ev) \<Rightarrow>
          length s \<le> w \<and> w < length (fst (identify_noise_obj dec s a)) \<and>
          identify_noise (s ! a) = Inr (fst (identify_noise_obj dec s a) ! w, ev))"
proof -
  let ?s1 = "fst (dec s a)" and ?a1 = "snd (dec s a)"
  note d = sorts_without_mutationD [OF dec a]
  have eq: "identify_noise_obj dec s a = identify_noise_body_obj dec ?s1 ?a1"
    by (simp add: identify_noise_obj_def sort_data_obj_def split_def Let_def)
  have val: "identify_noise (s ! a) = identify_noise_body (?s1 ! ?a1)"
    by (simp add: identify_noise_def sort_data_def d(4))
  note b = identify_noise_body_obj_frame [OF dec d(3)]
  let ?R = "identify_noise_body_obj dec ?s1 ?a1"
  from b have "take (length s) (take (length ?s1) (fst ?R)) = take (length s) ?s1" by simp
  with d(1,2) have 1: "take (length s) (fst ?R) = s" by (simp add: min_def)
  have 2: "case snd ?R of
        Inl e \<Rightarrow> identify_noise (s ! a) = Inl e
      | Inr (w, ev) \<Rightarrow>
          length s \<le> w \<and> w < length (fst ?R) \<and>
          identify_noise (s ! a) = Inr (fst ?R ! w, ev)"
    using b d(2) by (auto simp: val split: sum.splits)
  from 1 2 show ?thesis by (simp only: eq) 
qed


text \<open>
  Claim C9. The bodies of \<^verbatim>\<open>identify_anomaly\<close> and \<^verbatim>\<open>identify_through_gradient\<close>, given a
  frame object \<open>df\<close> of the store \<open>s\<close> as their argument, leave every object of \<open>s\<close> as it
  was, the argument among them: the derived columns go to the copy that the body makes,
  a new object, which is the frame returned. The same holds for the three decorated
  functions, \<^verbatim>\<open>identify_noise\<close> included, whichever object the decorator hands to the
  body, be it the caller's own frame, as long as the decorator itself changes no
  object: the store afterwards begins with \<open>s\<close>, the returned frame is a new object,
  and its content is the result of the detector on the content of \<open>df\<close>.
\<close>

theorem detectors_leave_input_unchanged:
  assumes "df < length s"
  shows
    "(take (length s) (fst (identify_anomaly_body_obj s df thr)) = s \<and>
      length s \<le> fst (snd (identify_anomaly_body_obj s df thr)) \<and>
      fst (snd (identify_anomaly_body_obj s df thr)) <
        length (fst (identify_anomaly_body_obj s df thr)) \<and>
      identify_anomaly_body (s ! df) thr =
        (fst (identify_anomaly_body_obj s df thr) ! fst (snd (identify_anomaly_body_obj s df thr)),
         snd (snd (identify_anomaly_body_obj s df thr)))) \<and>
     (take (length s) (fst (identify_through_gradient_body_obj s df g)) = s \<and>
      (case snd (identify_through_gradient_body_obj s df g) of
         Inl u \<Rightarrow> identify_through_gradient_body (s ! df) g = Inl u
       | Inr (w, ev) \<Rightarrow>
           length s \<le> w \<and> w < length (fst (identify_through_gradient_body_obj s df g)) \<and>
           identify_through_gradient_body (s ! df) g =
             Inr (fst (identify_through_gradient_body_obj s df g) ! w, ev))) \<and>
     (sorts_without_mutation dec \<longrightarrow>
       (take (length s) (fst (identify_anomaly_obj dec s df thr)) = s \<and>
        length s \<le> fst (snd (identify_anomaly_obj dec s df thr)) \<and>
        fst (snd (identify_anomaly_obj dec s df thr)) <
          length (fst (identify_anomaly_obj dec s df thr)) \<and>
        identify_anomaly (s ! df) thr =
          (fst (identify_anomaly_obj dec s df thr) ! fst (snd (identify_anomaly_obj dec s df thr)),
           snd (snd (identify_anomaly_obj dec s df thr)))) \<and>
       (take (length s) (fst (identify_through_gradient_obj dec s df g)) = s \<and>
        (case snd (identify_through_gradient_obj dec s df g) of
           Inl u \<Rightarrow> identify_through_gradient (s ! df) g = Inl u
         | Inr (w, ev) \<Rightarrow>
             length s \<le> w \<and> w < length (fst (identify_through_gradient_obj dec s df g)) \<and>
             identify_through_gradient (s ! df) g =
               Inr (fst (identify_through_gradient_obj dec s df g) ! w, ev))) \<and>
       (take (length s) (fst (identify_noise_obj dec s df)) = s \<and>
        (case snd (identify_noise_obj dec s df) of
           Inl e \<Rightarrow> identify_noise (s ! df) = Inl e
         | Inr (w, ev) \<Rightarrow>
             length s \<le> w \<and> w < length (fst (identify_noise_obj dec s df)) \<and>
             identify_noise (s ! df) = Inr (fst (identify_noise_obj dec s df) ! w, ev))))"
proof (intro conjI impI)
  show "take (length s) (fst (identify_anomaly_body_obj s df thr)) = s"
    and "length s \<le> fst (snd (identify_anomaly_body_obj s df thr))"
    and "fst (snd (identify_anomaly_body_obj s df thr)) <
        length (fst (identify_anomaly_body_obj s df thr))"
    and "identify_anomaly_body (s ! df) thr =
        (fst (identify_anomaly_body_obj s df thr) ! fst (snd (identify_anomaly_body_obj s df thr)),
         snd (snd (identify_anomaly_body_obj s df thr)))"
    using assms by (simp_all add: identify_anomaly_body_obj_eq)
next
  show "take (length s) (fst (identify_through_gradient_body_obj s df g)) = s"
    using assms
    by (simp add: identify_through_gradient_body_obj_eq split: sum.splits prod.splits)
next
  show "case snd (identify_through_gradient_body_obj s df g) of
         Inl u \<Rightarrow> identify_through_gradient_body (s ! df) g = Inl u
       | Inr (w, ev) \<Rightarrow>
           length s \<le> w \<and> w < length (fst (identify_through_gradient_body_obj s df g)) \<and>
           identify_through_gradient_body (s ! df) g =
             Inr (fst (identify_through_gradient_body_obj s df g) ! w, ev)"
    using assms
    by (simp add: identify_through_gradient_body_obj_eq nth_append split: sum.splits prod.splits)
next
  assume dec: "sorts_without_mutation dec"
  note d = sorts_without_mutationD [OF dec assms]
  show "take (length s) (fst (identify_anomaly_obj dec s df thr)) = s"
    and "length s \<le> fst (snd (identify_anomaly_obj dec s df thr))"
    and "fst (snd (identify_anomaly_obj dec s df thr)) <
          length (fst (identify_anomaly_obj dec s df thr))"
    and "identify_anomaly (s ! df) thr =
          (fst (identify_anomaly_obj dec s df thr) ! fst (snd (identify_anomaly_obj dec s df thr)),
           snd (snd (identify_anomaly_obj dec s df thr)))"
    using d(1,2) by (simp_all add: identify_anomaly_obj_eq [OF dec assms])
  show "take (length s) (fst (identify_through_gradient_obj dec s df g)) = s"
    using d(1,2)
    by (simp add: identify_through_gradient_obj_eq [OF dec assms]
        split: sum.splits prod.splits)
  show "case snd (identify_through_gradient_obj dec s df g) of
           Inl u \<Rightarrow> identify_through_gradient (s ! df) g = Inl u
         | Inr (w, ev) \<Rightarrow>
             length s \<le> w \<and> w < length (fst (identify_through_gradient_obj dec s df g)) \<and>
             identify_through_gradient (s ! df) g =
               Inr (fst (identify_through_gradient_obj dec s df g) ! w, ev)"
    using d(2)
    by (simp add: identify_through_gradient_obj_eq [OF dec assms] nth_append
        split: sum.splits prod.splits)
  from identify_noise_obj_frame [OF dec assms]
  show "take (length s) (fst (identify_noise_obj dec s df)) = s"
    and "case snd (identify_noise_obj dec s df) of
           Inl e \<Rightarrow> identify_noise (s ! df) = Inl e
         | Inr (w, ev) \<Rightarrow>
             length s \<le> w \<and> w < length (fst (identify_noise_obj dec s df)) \<and>
             identify_noise (s ! df) = Inr (fst (identify_noise_obj dec s df) ! w, ev)"
    by (rule conjunct1, rule conjunct2)
qed

theorem detectors_leave_input_unchanged_witness:
  "(0::nat) < length [[mk_sample 0 0 0 0, mk_sample 1 1 4 0]] \<and>
   sorts_without_mutation sort_data_alias \<and>
   sort_data_alias [[mk_sample 0 0 0 0, mk_sample 1 1 4 0]] 0 =
     ([[mk_sample 0 0 0 0, mk_sample 1 1 4 0]], 0) \<and>
   take (length [[mk_sample 0 0 0 0, mk_sample 1 1 4 0]])
     (fst (identify_anomaly_body_obj [[mk_sample 0 0 0 0, mk_sample 1 1 4 0]] 0 2)) =
     [[mk_sample 0 0 0 0, mk_sample 1 1 4 0]] \<and>
   take (length [[mk_sample 0 0 0 0, mk_sample 1 1 4 0]])
     (fst (identify_through_gradient_body_obj [[mk_sample 0 0 0 0, mk_sample 1 1 4 0]] 0 (3 / 10))) =
     [[mk_sample 0 0 0 0, mk_sample 1 1 4 0]] \<and>
   take (length [[mk_sample 0 0 0 0, mk_sample 1 1 4 0]])
     (fst (identify_anomaly_obj sort_data_alias [[mk_sample 0 0 0 0, mk_sample 1 1 4 0]] 0 2)) =
     [[mk_sample 0 0 0 0, mk_sample 1 1 4 0]] \<and>
   take (length [[mk_sample 0 0 0 0, mk_sample 1 1 4 0]])
     (fst (identify_through_gradient_obj sort_data_alias
            [[mk_sample 0 0 0 0, mk_sample 1 1 4 0]] 0 (3 / 10))) =
     [[mk_sample 0 0 0 0, mk_sample 1 1 4 0]] \<and>
   take (length [[mk_sample 0 0 0 0, mk_sample 1 1 4 0]])
     (fst (identify_noise_obj sort_data_alias [[mk_sample 0 0 0 0, mk_sample 1 1 4 0]] 0)) =
     [[mk_sample 0 0 0 0, mk_sample 1 1 4 0]]"
proof -
  have h: "(0::nat) < length [[mk_sample 0 0 0 0, mk_sample 1 1 4 0]]" by simp
  have a: "sort_data_alias [[mk_sample 0 0 0 0, mk_sample 1 1 4 0]] 0 =
     ([[mk_sample 0 0 0 0, mk_sample 1 1 4 0]], 0)"
    by (simp add: sort_data_alias_def sort_values_def mk_sample_def)
  note t = detectors_leave_input_unchanged
    [OF h, where thr = 2 and g = "3 / 10" and dec = sort_data_alias]
  note u = t [THEN conjunct2, THEN conjunct2, THEN mp, OF sorts_without_mutation_alias]
  show ?thesis
    by (intro conjI h a sorts_without_mutation_alias
        t [THEN conjunct1, THEN conjunct1]
        t [THEN conjunct2, THEN conjunct1, THEN conjunct1]
        u [THEN conjunct1, THEN conjunct1]
        u [THEN conjunct2, THEN conjunct1, THEN conjunct1]
        u [THEN conjunct2, THEN conjunct2, THEN conjunct1])
qed

end
